theory Spec2Isabelle
  imports Complex_Main
begin

text \<open>
  A model of the image to PDF converter. The repository holds the program twice, as
  \<open>Image to PDF Conversion Tool.py\<close> and as \<open>untitled0.py\<close>; the two copies differ
  in the name of the frame class (\<open>ImageFrame\<close>, \<open>ConverterFrame\<close>) and in comments
  only, and the model follows both. Widgets, layout and dialogs are left out: what a
  dialog returned is an argument of the method that opens it.
\<close>

section \<open>Python values used by the converter\<close>

text \<open>
  The exceptions that the modelled code paths can raise. \<open>ZeroDivisionError\<close> comes
  from Python's true division, \<open>IndexError\<close> from list indexing, \<open>ValueError\<close> from
  Pillow's \<open>Image.resize\<close> when a requested dimension is smaller than one and from
  its PDF writer for a mode it cannot store, \<open>OSError\<close> from opening the target file
  for writing, and \<open>FileNotFoundError\<close> stands for every way in which
  \<open>PIL.Image.open\<close> can fail.
\<close>

datatype error = ZeroDivisionError | ValueError | IndexError | FileNotFoundError | OSError

subsection \<open>Binary64 arithmetic\<close>

text \<open>
  Python's \<open>/\<close> is true division: its result is a \<open>float\<close>, an IEEE 754 binary64
  number, even when both operands are integers. A finite float is a rational number, so
  floats are modelled as rationals and every float operation as the exact operation
  followed by rounding to 53 significant bits, ties to even (\<open>fl\<close>). The exponent range
  of binary64 is not modelled; no overflow or underflow occurs for image dimensions
  below \<open>2 ^ 500\<close>.
\<close>

function bitlen :: "int \<Rightarrow> nat" where
  "bitlen n = (if n \<le> 0 then 0 else Suc (bitlen (n div 2)))"
  by pat_completeness auto
termination
  by (relation "measure nat") auto

declare bitlen.simps [simp del]

definition round_half_even :: "rat \<Rightarrow> int" where
  "round_half_even s =
     (let f = \<lfloor>s\<rfloor>; r = s - of_int f
      in if r < 1 / 2 then f
         else if 1 / 2 < r then f + 1
         else if even f then f else f + 1)"

text \<open>The binary exponent \<open>e\<close> of a positive rational \<open>q\<close>: \<open>2 ^ e \<le> q < 2 ^ (e + 1)\<close>.\<close>

definition exponent :: "rat \<Rightarrow> int" where
  "exponent q =
     (let (a, b) = quotient_of q;
          d = int (bitlen a) - int (bitlen b)
      in if power_int 2 d \<le> q then d else d - 1)"

definition fl :: "rat \<Rightarrow> rat" where
  "fl q =
     (if q = 0 then 0
      else let e = exponent \<bar>q\<bar>;
               m = round_half_even (\<bar>q\<bar> * power_int 2 (52 - e))
           in sgn q * of_int m * power_int 2 (e - 52))"

text \<open>\<open>int / int\<close>: the correctly rounded quotient, or \<open>ZeroDivisionError\<close>.\<close>

definition int_truediv :: "int \<Rightarrow> int \<Rightarrow> error + rat" where
  "int_truediv a b =
     (if b = 0 then Inl ZeroDivisionError else Inr (fl (of_int a / of_int b)))"

text \<open>An integer operand of a float operation is converted to a float first.\<close>

definition float_of_int :: "int \<Rightarrow> rat" where
  "float_of_int n = fl (of_int n)"

definition float_truediv :: "rat \<Rightarrow> rat \<Rightarrow> error + rat" where
  "float_truediv x y = (if y = 0 then Inl ZeroDivisionError else Inr (fl (x / y)))"

definition float_mul :: "rat \<Rightarrow> rat \<Rightarrow> rat" where
  "float_mul x y = fl (x * y)"

text \<open>\<open>int(x)\<close> on a float truncates toward zero.\<close>

definition py_int :: "rat \<Rightarrow> int" where
  "py_int x = (if 0 \<le> x then \<lfloor>x\<rfloor> else \<lceil>x\<rceil>)"

section \<open>Images\<close>

text \<open>
  Pillow is an external library. An image is the size (width, height), the mode and the
  pixel data of its current frame, together with the frames that follow it when the file
  holds several (a TIFF with several pages, an animated PNG). The pixel data is kept
  symbolic, as the history of the Pillow operations that produced it from a decoded file.
\<close>

datatype pixels =
    Decoded string
  | Rotated90 pixels
  | Mirrored pixels
  | Resampled pixels int int

text \<open>A frame, which is also what a page of an exported document holds: size, mode and
  pixel data.\<close>

type_synonym page = "(int \<times> int) \<times> string \<times> pixels"

record image =
  im_size :: "int \<times> int"
  im_mode :: string
  im_data :: pixels
  im_more :: "page list"

definition first_page :: "image \<Rightarrow> page" where
  "first_page im = (im_size im, im_mode im, im_data im)"

definition im_pages :: "image \<Rightarrow> page list" where
  "im_pages im = first_page im # im_more im"

text \<open>The image that a Pillow operation returns has one frame.\<close>

definition single_frame :: "int \<times> int \<Rightarrow> string \<Rightarrow> pixels \<Rightarrow> image" where
  "single_frame sz m d = \<lparr>im_size = sz, im_mode = m, im_data = d, im_more = []\<rparr>"

text \<open>\<open>im.rotate(90, expand=True)\<close>: a quarter turn counterclockwise of the current
  frame; the canvas is expanded, so width and height change places.\<close>

definition pil_rotate_90_expand :: "image \<Rightarrow> image" where
  "pil_rotate_90_expand im =
     single_frame (snd (im_size im), fst (im_size im)) (im_mode im) (Rotated90 (im_data im))"

text \<open>\<open>PIL.ImageOps.mirror(im)\<close>: left and right change places, the size stays.\<close>

definition pil_mirror :: "image \<Rightarrow> image" where
  "pil_mirror im = single_frame (im_size im) (im_mode im) (Mirrored (im_data im))"

text \<open>\<open>im.resize((w, h))\<close>: a new image of the requested size; Pillow raises
  \<open>ValueError\<close> (height and width must be > 0) when a requested dimension is below one.\<close>

definition pil_resize :: "image \<Rightarrow> int \<times> int \<Rightarrow> error + image" where
  "pil_resize im sz =
     (if fst sz < 1 \<or> snd sz < 1 then Inl ValueError
      else Inr (single_frame sz (im_mode im) (Resampled (im_data im) (fst sz) (snd sz))))"

section \<open>The size computation of \<open>resize_original_image\<close>\<close>

text \<open>
  What \<open>resize_original_image\<close> decides: either the preview is the original image
  itself (\<open>Keep\<close>, the early \<open>return\<close>), or the original is resized to
  \<open>(length_resize, height_resize)\<close>.
\<close>

datatype fit = Keep | Resize int int

definition length_distance :: "int \<Rightarrow> rat" where
  "length_distance length' = fl (of_int length' / 800)"

definition height_distance :: "int \<Rightarrow> rat" where
  "height_distance height = fl (of_int height / 600)"

text \<open>The branch \<open>length_distance > height_distance\<close> (source lines 106 to 108).\<close>

definition scale_by_length :: "int \<Rightarrow> rat \<Rightarrow> rat \<Rightarrow> error + fit" where
  "scale_by_length length' aspect_ratio l_dist =
     (case float_truediv (float_of_int length') l_dist of
        Inl e \<Rightarrow> Inl e
      | Inr q \<Rightarrow>
          (let length_resize = py_int q
           in case float_truediv (float_of_int length_resize) aspect_ratio of
                Inl e \<Rightarrow> Inl e
              | Inr r \<Rightarrow> Inr (Resize length_resize (py_int r))))"

text \<open>The \<open>else\<close> branch (source lines 110 and 111).\<close>

definition scale_by_height :: "int \<Rightarrow> rat \<Rightarrow> rat \<Rightarrow> error + fit" where
  "scale_by_height height aspect_ratio h_dist =
     (case float_truediv (float_of_int height) h_dist of
        Inl e \<Rightarrow> Inl e
      | Inr q \<Rightarrow>
          (let height_resize = py_int q;
               length_resize = py_int (float_mul (float_of_int height_resize) aspect_ratio)
           in Inr (Resize length_resize height_resize)))"

definition scale :: "int \<Rightarrow> int \<Rightarrow> rat \<Rightarrow> rat \<Rightarrow> rat \<Rightarrow> error + fit" where
  "scale length' height aspect_ratio l_dist h_dist =
     (if l_dist > h_dist then scale_by_length length' aspect_ratio l_dist
      else scale_by_height height aspect_ratio h_dist)"

text \<open>
  The whole computation (source lines 82 to 111). The landscape and the portrait branch
  are both kept, as the source has them.
\<close>

definition resize_dims :: "int \<Rightarrow> int \<Rightarrow> error + fit" where
  "resize_dims length' height =
     (case int_truediv length' height of
        Inl e \<Rightarrow> Inl e
      | Inr aspect_ratio \<Rightarrow>
          (if length' > height then
             (if length' < 800 \<and> height < 600 then Inr Keep
              else scale length' height aspect_ratio
                     (length_distance length') (height_distance height))
           else
             (if length' < 800 \<and> height < 600 then Inr Keep
              else scale length' height aspect_ratio
                     (length_distance length') (height_distance height))))"

text \<open>The size of the preview that the computation asks for.\<close>

definition fit_size :: "int \<times> int \<Rightarrow> fit \<Rightarrow> int \<times> int" where
  "fit_size sz f = (case f of Keep \<Rightarrow> sz | Resize w h \<Rightarrow> (w, h))"

definition fitted_size :: "int \<Rightarrow> int \<Rightarrow> error + int \<times> int" where
  "fitted_size length' height =
     (case resize_dims length' height of
        Inl e \<Rightarrow> Inl e
      | Inr f \<Rightarrow> Inr (fit_size (length', height) f))"

section \<open>\<open>ImageFrame\<close>\<close>

text \<open>
  The fields of \<open>ImageFrame\<close> that hold images. A method that raises leaves the
  assignments it has already made in place, so a method returns the exception, if any,
  together with the frame.
\<close>

record ImageFrame =
  original_image :: image
  resized_image :: "image option"
  display_image :: "image option"

definition resize_original_image :: "ImageFrame \<Rightarrow> error option \<times> ImageFrame" where
  "resize_original_image self =
     (case resize_dims (fst (im_size (original_image self)))
                       (snd (im_size (original_image self))) of
        Inl e \<Rightarrow> (Some e, self)
      | Inr Keep \<Rightarrow> (None, self\<lparr>resized_image := Some (original_image self)\<rparr>)
      | Inr (Resize length_resize height_resize) \<Rightarrow>
          (case pil_resize (original_image self) (length_resize, height_resize) of
             Inl e \<Rightarrow> (Some e, self)
           | Inr im \<Rightarrow> (None, self\<lparr>resized_image := Some im\<rparr>)))"

definition apply_image_edit :: "ImageFrame \<Rightarrow> error option \<times> ImageFrame" where
  "apply_image_edit self =
     (case resize_original_image self of
        (Some e, self') \<Rightarrow> (Some e, self')
      | (None, self') \<Rightarrow> (None, self'\<lparr>display_image := resized_image self'\<rparr>))"

definition rotate_frame :: "ImageFrame \<Rightarrow> error option \<times> ImageFrame" where
  "rotate_frame self =
     apply_image_edit (self\<lparr>original_image := pil_rotate_90_expand (original_image self)\<rparr>)"

definition flip :: "ImageFrame \<Rightarrow> error option \<times> ImageFrame" where
  "flip self = apply_image_edit (self\<lparr>original_image := pil_mirror (original_image self)\<rparr>)"

text \<open>
  \<open>ImageFrame(container, image)\<close>. The files that \<open>PIL.Image.open\<close> can read are a
  parameter: \<open>files path\<close> is the decoded image or the exception. A constructor that
  raises yields no frame.
\<close>

definition ImageFrame_init :: "(string \<Rightarrow> error + image) \<Rightarrow> string \<Rightarrow> error + ImageFrame" where
  "ImageFrame_init files path =
     (case files path of
        Inl e \<Rightarrow> Inl e
      | Inr im \<Rightarrow>
          (case resize_original_image
                  \<lparr>original_image = im, resized_image = None, display_image = None\<rparr> of
             (Some e, self) \<Rightarrow> Inl e
           | (None, self) \<Rightarrow> Inr (self\<lparr>display_image := resized_image self\<rparr>)))"

section \<open>\<open>ControlFrame\<close>\<close>

datatype button_state = DISABLED | NORMAL

text \<open>
  \<open>selected_value\<close> is the \<open>IntVar\<close> shared by the radio buttons, \<open>buttons\<close> holds the
  \<open>value\<close> each radio button was created with, \<open>raised\<close> is the index of the frame
  that was last put on top of the stacking order (a new frame is created on top).
\<close>

record ControlFrame =
  selected_value :: int
  buttons :: "int list"
  frames :: "ImageFrame list"
  save_button :: button_state
  raised :: "nat option"

definition ControlFrame_init :: ControlFrame where
  "ControlFrame_init =
     \<lparr>selected_value = 0, buttons = [], frames = [], save_button = DISABLED, raised = None\<rparr>"

text \<open>\<open>self.frames[self.selected_value.get()]\<close> raises \<open>IndexError\<close> out of range; a
  negative index counts from the end of the list.\<close>

definition change_frame :: "ControlFrame \<Rightarrow> error option \<times> ControlFrame" where
  "change_frame self =
     (let n = int (length (frames self));
          i = selected_value self;
          j = (if i < 0 then i + n else i)
      in if 0 \<le> j \<and> j < n then (None, self\<lparr>raised := Some (nat j)\<rparr>)
         else (Some IndexError, self))"

text \<open>
  \<open>add_new_image\<close>; \<open>filename\<close> is what the file dialog returned. The method has no
  \<open>return\<close> statement: on success its value is Python's \<open>None\<close>, here \<open>Inr None\<close>.
\<close>

definition add_new_image ::
  "(string \<Rightarrow> error + image) \<Rightarrow> string \<Rightarrow> ControlFrame \<Rightarrow> (error + int option) \<times> ControlFrame" where
  "add_new_image files filename self =
     (case ImageFrame_init files filename of
        Inl e \<Rightarrow> (Inl e, self)
      | Inr new_frame \<Rightarrow>
          (let self1 = self\<lparr>frames := frames self @ [new_frame],
                             raised := Some (length (frames self))\<rparr>;
               self2 = self1\<lparr>buttons := buttons self1 @ [int (length (buttons self1))]\<rparr>
           in case change_frame self2 of
                (Some e, self3) \<Rightarrow> (Inl e, self3)
              | (None, self3) \<Rightarrow> (Inr None, self3\<lparr>save_button := NORMAL\<rparr>)))"

text \<open>
  \<open>save_as_pdf\<close>; \<open>directory\<close> is what the save dialog returned. The file system
  maps a path to what is stored there, \<open>writable\<close> says whether a path can be opened
  for writing, and \<open>pdf_mode\<close> is the table of the modes that Pillow's PDF writer
  accepts (the table has grown between releases, so it is a parameter).

  \<open>images[0].save(directory, format="pdf", save_all=True, append_images=images[1:])\<close>
  opens the file for writing, which raises \<open>OSError\<close> when that is not possible, and
  writes one page for every frame of \<open>images[0]\<close> and then of each appended image, in
  that order: with \<open>save_all\<close> an image of several frames gives several pages. A frame
  in a mode outside the table raises \<open>ValueError\<close>; what was opened is then no document:
  a file that the call created is removed again, a file that was there before is left
  truncated. Which frame of a multi-frame image is the current one after the call is not
  followed.
\<close>

datatype file_content = Document "page list" | Truncated

definition pil_save_pdf :: "(string \<Rightarrow> bool) \<Rightarrow> image \<Rightarrow> image list \<Rightarrow> error + page list" where
  "pil_save_pdf pdf_mode first append_images =
     (let pages = concat (map im_pages (first # append_images))
      in if list_all (\<lambda>p. pdf_mode (fst (snd p))) pages then Inr pages
         else Inl ValueError)"

definition save_as_pdf ::
  "(string \<Rightarrow> bool) \<Rightarrow> (string \<Rightarrow> bool) \<Rightarrow> ControlFrame \<Rightarrow> string \<Rightarrow>
     (string \<rightharpoonup> file_content) \<Rightarrow> error option \<times> (string \<rightharpoonup> file_content)" where
  "save_as_pdf writable pdf_mode self directory fs =
     (if directory = [] then (None, fs)
      else (let images = map original_image (frames self)
            in case images of
                 [] \<Rightarrow> (Some IndexError, fs)
               | first # rest \<Rightarrow>
                   (if \<not> writable directory then (Some OSError, fs)
                    else (case pil_save_pdf pdf_mode first rest of
                            Inl e \<Rightarrow>
                              (Some e,
                               fs(directory :=
                                    (case fs directory of
                                       None \<Rightarrow> None
                                     | Some old \<Rightarrow> Some Truncated)))
                          | Inr pages \<Rightarrow> (None, fs(directory \<mapsto> Document pages))))))"

section \<open>Example values\<close>

text \<open>Concrete images, files and frames on which the theorems below are instantiated:
  single-frame RGB images of several sizes, a TIFF of three pages, and a TIFF in the
  floating point mode \<open>F\<close>, which PDF cannot hold.\<close>

definition example_image :: "string \<Rightarrow> int \<Rightarrow> int \<Rightarrow> image" where
  "example_image name w h = single_frame (w, h) ''RGB'' (Decoded name)"

definition example_tiff :: image where
  "example_tiff =
     \<lparr>im_size = (500, 300), im_mode = ''RGB'', im_data = Decoded ''t.tif page 1'',
      im_more = [((500, 300), ''RGB'', Decoded ''t.tif page 2''),
                 ((500, 300), ''RGB'', Decoded ''t.tif page 3'')]\<rparr>"

definition example_files :: "string \<Rightarrow> error + image" where
  "example_files path =
     (if path = ''a.png'' then Inr (example_image ''a.png'' 500 300)
      else if path = ''b.png'' then Inr (example_image ''b.png'' 300 500)
      else if path = ''c.png'' then Inr (example_image ''c.png'' 800 800)
      else if path = ''d.png'' then Inr (example_image ''d.png'' 1600 600)
      else if path = ''n.png'' then Inr (example_image ''n.png'' 1 100000)
      else if path = ''w.png'' then Inr (example_image ''w.png'' 1400 2)
      else if path = ''t.tif'' then Inr example_tiff
      else if path = ''f.tif'' then Inr (single_frame (500, 300) ''F'' (Decoded ''f.tif''))
      else Inl FileNotFoundError)"

definition example_frame :: "image \<Rightarrow> image \<Rightarrow> ImageFrame" where
  "example_frame im preview =
     \<lparr>original_image = im, resized_image = Some preview, display_image = Some preview\<rparr>"

text \<open>The modes that the PDF writer of current Pillow releases accepts.\<close>

definition example_pdf_mode :: "string \<Rightarrow> bool" where
  "example_pdf_mode m \<longleftrightarrow>
     m \<in> set [''1'', ''L'', ''LA'', ''P'', ''RGB'', ''RGBA'', ''CMYK'']"

section \<open>The reference formulas of the specification\<close>

text \<open>
  The formulas of the specification for a size that fails the no-op test, written from
  its words: the two ratios against the constants 800 and 600 and the aspect ratio as
  real-number divisions, and for each constraining axis the two fitted dimensions as
  floors. They are stated over the rationals, with exact arithmetic.
\<close>

definition width_ratio :: "int \<Rightarrow> rat" where
  "width_ratio width = of_int width / 800"

definition height_ratio :: "int \<Rightarrow> rat" where
  "height_ratio height = of_int height / 600"

definition aspect_ratio :: "int \<Rightarrow> int \<Rightarrow> rat" where
  "aspect_ratio width height = of_int width / of_int height"

definition fitted_width_constrained :: "int \<Rightarrow> int \<Rightarrow> int \<times> int" where
  "fitted_width_constrained width height =
     (let fitted_width = \<lfloor>of_int width / width_ratio width\<rfloor>;
          fitted_height = \<lfloor>of_int fitted_width / aspect_ratio width height\<rfloor>
      in (fitted_width, fitted_height))"

definition fitted_height_constrained :: "int \<Rightarrow> int \<Rightarrow> int \<times> int" where
  "fitted_height_constrained width height =
     (let fitted_height = \<lfloor>of_int height / height_ratio height\<rfloor>;
          fitted_width = \<lfloor>of_int fitted_height * aspect_ratio width height\<rfloor>
      in (fitted_width, fitted_height))"

section \<open>Consistency of the preview\<close>

text \<open>
  The aspect ratio of \<open>preview\<close> is that of \<open>original\<close> up to one pixel in each
  dimension: there are reals \<open>x\<close> and \<open>y\<close> with \<open>x / y\<close> the ratio of the original,
  \<open>x\<close> within one of the preview's width and \<open>y\<close> within one of its height. For
  positive sizes that is the inequality below.
\<close>

definition aspect_within_one_pixel :: "int \<times> int \<Rightarrow> int \<times> int \<Rightarrow> bool" where
  "aspect_within_one_pixel original preview \<longleftrightarrow>
     \<bar>fst preview * snd original - snd preview * fst original\<bar> \<le> fst original + snd original"

text \<open>
  The preview of a frame is consistent with its original image: it is the image that is
  displayed, it is the original itself or a resize of the original as it is now, its size
  is the fitted size of the original's size, and the aspect ratio is kept.
\<close>

definition preview_consistent :: "ImageFrame \<Rightarrow> bool" where
  "preview_consistent self =
     (case resized_image self of
        None \<Rightarrow> False
      | Some p \<Rightarrow>
          display_image self = Some p \<and>
          (p = original_image self \<or> pil_resize (original_image self) (im_size p) = Inr p) \<and>
          fitted_size (fst (im_size (original_image self))) (snd (im_size (original_image self))) =
            Inr (im_size p) \<and>
          aspect_within_one_pixel (im_size (original_image self)) (im_size p))"

definition positive_size :: "image \<Rightarrow> bool" where
  "positive_size im \<longleftrightarrow> 0 < fst (im_size im) \<and> 0 < snd (im_size im)"

section \<open>Rotation\<close>

lemma resize_original_image_original:
  "original_image (snd (resize_original_image self)) = original_image self"
  by (simp add: resize_original_image_def split: sum.split fit.split)

lemma apply_image_edit_original:
  "original_image (snd (apply_image_edit self)) = original_image self"
proof (cases "resize_original_image self")
  case (Pair r self')
  then have "original_image self' = original_image self"
    using resize_original_image_original [of self] by simp
  with Pair show ?thesis
    by (simp add: apply_image_edit_def split: option.split)
qed

lemma rotate_frame_size:
  "im_size (original_image (snd (rotate_frame self))) =
     (snd (im_size (original_image self)), fst (im_size (original_image self)))"
  by (simp add: rotate_frame_def apply_image_edit_original pil_rotate_90_expand_def
      single_frame_def)

text \<open>
  Claim C10. \<open>rotate\<close> replaces the original image by its quarter turn, whose width and
  height are those of the image exchanged, whether or not the preview can be rebuilt
  afterwards; four rotations bring the size of the original image back to its first value.
\<close>

theorem rotate_four_times_restores_size:
  "im_size (original_image (snd (rotate_frame self))) =
     (snd (im_size (original_image self)), fst (im_size (original_image self))) \<and>
   im_size (original_image
     (snd (rotate_frame (snd (rotate_frame (snd (rotate_frame (snd (rotate_frame self))))))))) =
     im_size (original_image self)"
  by (simp add: rotate_frame_size)

section \<open>Export\<close>

lemma concat_single_frames:
  "\<forall>f \<in> set fs. im_more (original_image f) = [] \<Longrightarrow>
   concat (map (\<lambda>f. im_pages (original_image f)) fs) =
     map (\<lambda>f. first_page (original_image f)) fs"
  by (induction fs) (simp_all add: im_pages_def)

lemma pil_save_pdf_accepts:
  assumes "\<forall>p \<in> set (concat (map im_pages (first # rest))). pdf_mode (fst (snd p))"
  shows "pil_save_pdf pdf_mode first rest = Inr (concat (map im_pages (first # rest)))"
  using assms by (simp add: pil_save_pdf_def Let_def list_all_iff)

text \<open>Claim C2 as stated fails: the collection holds one image, a TIFF of three pages,
  and the exported document has three pages; and the collection that holds one image in
  mode \<open>F\<close> is not exported at all.\<close>

theorem save_as_pdf_pages_counterexample:
  "length (frames (ControlFrame_init\<lparr>frames := [example_frame example_tiff example_tiff]\<rparr>)) = 1 \<and>
   save_as_pdf (\<lambda>path. True) example_pdf_mode
     (ControlFrame_init\<lparr>frames := [example_frame example_tiff example_tiff]\<rparr>)
     ''out.pdf'' Map.empty =
   (None, [''out.pdf'' \<mapsto> Document
      [((500, 300), ''RGB'', Decoded ''t.tif page 1''),
       ((500, 300), ''RGB'', Decoded ''t.tif page 2''),
       ((500, 300), ''RGB'', Decoded ''t.tif page 3'')]]) \<and>
   fst (save_as_pdf (\<lambda>path. True) example_pdf_mode
     (ControlFrame_init\<lparr>frames :=
        [example_frame (single_frame (500, 300) ''F'' (Decoded ''f.tif''))
           (single_frame (500, 300) ''F'' (Decoded ''f.tif''))]\<rparr>)
     ''out.pdf'' Map.empty) = Some ValueError"
  by (simp add: save_as_pdf_def pil_save_pdf_def ControlFrame_init_def example_frame_def
      example_tiff_def example_pdf_mode_def im_pages_def first_page_def single_frame_def)

text \<open>
  Claim C2, as the code has it. When at least one image has been added, the save dialog
  returned a path that can be written, and every frame of every original image is in a
  mode that the PDF writer accepts, \<open>save_as_pdf\<close> writes one document at that path.
  Its pages are the frames of the original image of frame 0, then those of frame 1, and so
  on, each with the size and the pixel data of the original. When every original image
  has a single frame, the document has as many pages as there are images and page \<open>i\<close>
  is the original image of frame \<open>i\<close>. The resized image and the display image of a
  frame have no influence on what is written.
\<close>

theorem save_as_pdf_pages:
  assumes "frames self \<noteq> []" and "directory \<noteq> []" and "writable directory"
    and "\<forall>f \<in> set (frames self). \<forall>p \<in> set (im_pages (original_image f)). pdf_mode (fst (snd p))"
  shows "save_as_pdf writable pdf_mode self directory fs =
           (None, fs(directory \<mapsto>
              Document (concat (map (\<lambda>f. im_pages (original_image f)) (frames self))))) \<and>
         ((\<forall>f \<in> set (frames self). im_more (original_image f) = []) \<longrightarrow>
            length (concat (map (\<lambda>f. im_pages (original_image f)) (frames self))) =
              length (frames self) \<and>
            (\<forall>i < length (frames self).
               concat (map (\<lambda>f. im_pages (original_image f)) (frames self)) ! i =
                 first_page (original_image (frames self ! i)))) \<and>
         (\<forall>g h. save_as_pdf writable pdf_mode
            (self\<lparr>frames := map (\<lambda>f. f\<lparr>resized_image := g f, display_image := h f\<rparr>) (frames self)\<rparr>)
            directory fs = save_as_pdf writable pdf_mode self directory fs)"
proof -
  obtain f fs' where fr: "frames self = f # fs'"
    using assms(1) by (cases "frames self") auto
  have pages: "concat (map im_pages (original_image f # map original_image fs')) =
      concat (map (\<lambda>f. im_pages (original_image f)) (frames self))"
    by (simp add: fr comp_def)
  have "\<forall>p \<in> set (concat (map im_pages (original_image f # map original_image fs'))).
      pdf_mode (fst (snd p))"
    unfolding pages using assms(4) by auto
  then have "pil_save_pdf pdf_mode (original_image f) (map original_image fs') =
      Inr (concat (map (\<lambda>f. im_pages (original_image f)) (frames self)))"
    unfolding pages [symmetric] by (rule pil_save_pdf_accepts)
  then have written: "save_as_pdf writable pdf_mode self directory fs =
      (None, fs(directory \<mapsto>
         Document (concat (map (\<lambda>f. im_pages (original_image f)) (frames self)))))"
    using assms(2,3) by (simp add: save_as_pdf_def fr)
  have single: "(\<forall>f \<in> set (frames self). im_more (original_image f) = []) \<longrightarrow>
      length (concat (map (\<lambda>f. im_pages (original_image f)) (frames self))) =
        length (frames self) \<and>
      (\<forall>i < length (frames self).
         concat (map (\<lambda>f. im_pages (original_image f)) (frames self)) ! i =
           first_page (original_image (frames self ! i)))"
    by (simp add: concat_single_frames)
  have preview: "\<forall>g h. save_as_pdf writable pdf_mode
      (self\<lparr>frames := map (\<lambda>f. f\<lparr>resized_image := g f, display_image := h f\<rparr>) (frames self)\<rparr>)
      directory fs = save_as_pdf writable pdf_mode self directory fs"
    by (simp add: save_as_pdf_def comp_def)
  from written single preview show ?thesis by blast
qed

text \<open>The example of the specification: A (500 x 300), B (300 x 500) and C (800 x 800),
  the last one with a 600 x 600 preview.\<close>

theorem save_as_pdf_pages_witness:
  "save_as_pdf (\<lambda>path. True) example_pdf_mode
     (ControlFrame_init\<lparr>frames :=
        [example_frame (example_image ''a.png'' 500 300) (example_image ''a.png'' 500 300),
         example_frame (example_image ''b.png'' 300 500) (example_image ''b.png'' 300 500),
         example_frame (example_image ''c.png'' 800 800) (example_image ''p.png'' 600 600)]\<rparr>)
     ''out.pdf'' Map.empty =
   (None, [''out.pdf'' \<mapsto> Document
      [((500, 300), ''RGB'', Decoded ''a.png''),
       ((300, 500), ''RGB'', Decoded ''b.png''),
       ((800, 800), ''RGB'', Decoded ''c.png'')]])"
  using save_as_pdf_pages [where writable = "\<lambda>path. True" and pdf_mode = example_pdf_mode
     and directory = "''out.pdf''" and fs = Map.empty and self =
     "ControlFrame_init\<lparr>frames :=
        [example_frame (example_image ''a.png'' 500 300) (example_image ''a.png'' 500 300),
         example_frame (example_image ''b.png'' 300 500) (example_image ''b.png'' 300 500),
         example_frame (example_image ''c.png'' 800 800) (example_image ''p.png'' 600 600)]\<rparr>"]
  by (simp add: example_frame_def example_image_def example_pdf_mode_def im_pages_def
      first_page_def single_frame_def)

text \<open>
  Claim C7, as the code has it. \<open>save_as_pdf\<close> on an empty list of frames never writes a
  file. When the save dialog returned a path, \<open>images[0]\<close> raises \<open>IndexError\<close>; the
  program has no exception of its own for an empty export and no check for it (the Save
  button is disabled until the first image is added). When the dialog was cancelled the
  method returns without an exception.
\<close>

theorem save_as_pdf_empty:
  assumes "frames self = []"
  shows "snd (save_as_pdf writable pdf_mode self directory fs) = fs \<and>
         fst (save_as_pdf writable pdf_mode self directory fs) =
           (if directory = [] then None else Some IndexError)"
  using assms by (simp add: save_as_pdf_def)

theorem save_as_pdf_empty_witness:
  "save_as_pdf (\<lambda>path. True) example_pdf_mode ControlFrame_init ''out.pdf'' Map.empty =
     (Some IndexError, Map.empty)"
  using save_as_pdf_empty [where self = ControlFrame_init and directory = "''out.pdf''"
     and fs = Map.empty and writable = "\<lambda>path. True" and pdf_mode = example_pdf_mode]
  by (simp add: ControlFrame_init_def prod_eq_iff)

text \<open>Claim C7 as stated fails: with a cancelled dialog the export of an empty collection
  does not fail at all, and with a path the exception is Python's \<open>IndexError\<close>.\<close>

theorem save_as_pdf_empty_counterexample:
  "fst (save_as_pdf (\<lambda>path. True) example_pdf_mode ControlFrame_init [] Map.empty) = None \<and>
   fst (save_as_pdf (\<lambda>path. True) example_pdf_mode ControlFrame_init ''out.pdf'' Map.empty) =
     Some IndexError"
  by (simp add: save_as_pdf_def ControlFrame_init_def)

section \<open>The size computation on concrete sizes\<close>

text \<open>Values of the size computation, obtained by evaluating the definitions.\<close>

lemma eval_800_600: "fitted_size 800 600 = Inr (800, 600)" by code_simp
lemma eval_799_599: "fitted_size 799 599 = Inr (799, 599)" by code_simp
lemma eval_1_100000: "fitted_size 1 100000 = Inr (0, 600)" by code_simp
lemma eval_56_601: "fitted_size 56 601 = Inr (55, 600)" by code_simp
lemma eval_55_600: "fitted_size 55 600 = Inr (54, 600)" by code_simp
lemma eval_tie_dims: "resize_dims 872 654 = Inr (Resize 800 600)" by code_simp
lemma eval_tie_length:
  "scale_by_length 872 (fl (of_int 872 / of_int 654)) (length_distance 872) = Inr (Resize 799 599)"
  by code_simp
lemma eval_tie_height:
  "scale_by_height 654 (fl (of_int 872 / of_int 654)) (height_distance 654) = Inr (Resize 800 600)"
  by code_simp
lemma eval_tie: "length_distance 872 = height_distance 654" by code_simp

section \<open>The no-op test and the choice of the branch\<close>

lemma resize_dims_unfold:
  "height \<noteq> 0 \<Longrightarrow>
   resize_dims length' height =
     (if length' < 800 \<and> height < 600 then Inr Keep
      else scale length' height (fl (of_int length' / of_int height))
             (length_distance length') (height_distance height))"
  by (simp add: resize_dims_def int_truediv_def)

lemma scale_not_Keep: "scale length' height ar l_dist h_dist \<noteq> Inr Keep"
  by (simp add: scale_def scale_by_length_def scale_by_height_def Let_def split: sum.split)

text \<open>
  Claim C3, as the code has it. The early return (the preview is the original image
  itself) is taken exactly when the width is below 800 and the height is below 600, both
  strictly; the size is then unchanged, for instance at 799 x 599. Every other size goes
  through the scaling path, whose result can still be the size it started from: 800 x 600
  is scaled to 800 x 600.
\<close>

theorem noop_iff_strictly_inside:
  assumes "height \<noteq> 0"
  shows "(resize_dims length' height = Inr Keep \<longleftrightarrow> length' < 800 \<and> height < 600) \<and>
         (length' < 800 \<and> height < 600 \<longrightarrow> fitted_size length' height = Inr (length', height)) \<and>
         fitted_size 799 599 = Inr (799, 599) \<and>
         fitted_size 800 600 = Inr (800, 600)"
proof -
  have path: "resize_dims length' height = Inr Keep \<longleftrightarrow> length' < 800 \<and> height < 600"
    using assms by (simp add: resize_dims_unfold scale_not_Keep)
  have same: "length' < 800 \<and> height < 600 \<longrightarrow>
      fitted_size length' height = Inr (length', height)"
    using assms by (simp add: fitted_size_def resize_dims_unfold fit_size_def)
  from path same eval_799_599 eval_800_600 show ?thesis by blast
qed

theorem noop_iff_strictly_inside_witness:
  "resize_dims 500 300 = Inr Keep \<and> fitted_size 500 300 = Inr (500, 300) \<and>
   resize_dims 800 600 \<noteq> Inr Keep"
  using noop_iff_strictly_inside [of 300 500] noop_iff_strictly_inside [of 600 800]
  by simp

text \<open>Claim C3 as stated fails: 800 x 600 is outside the no-op region and yet the fitted
  size equals the original size.\<close>

theorem noop_boundary_counterexample:
  "fitted_size 800 600 = Inr (800, 600)"
  by (rule eval_800_600)

text \<open>
  Claim C4, as the code has it. Outside the no-op region the length branch is taken when
  \<open>length_distance\<close> is strictly greater than \<open>height_distance\<close>, and the height branch
  otherwise; equal ratios, which arise whenever \<open>3 * length = 4 * height\<close>, therefore
  go to the height branch.
\<close>

theorem ties_take_height_branch:
  assumes "height \<noteq> 0" and "\<not> (length' < 800 \<and> height < 600)"
  shows "(length_distance length' > height_distance height \<longrightarrow>
            resize_dims length' height =
              scale_by_length length' (fl (of_int length' / of_int height))
                (length_distance length')) \<and>
         (length_distance length' \<le> height_distance height \<longrightarrow>
            resize_dims length' height =
              scale_by_height height (fl (of_int length' / of_int height))
                (height_distance height)) \<and>
         (3 * length' = 4 * height \<longrightarrow>
            length_distance length' = height_distance height)"
proof -
  have "length_distance length' = height_distance height" if "3 * length' = 4 * height"
  proof -
    have "of_int (3 * length') = (of_int (4 * height) :: rat)" using that by simp
    then have "(of_int length' :: rat) / 800 = of_int height / 600" by simp
    then show ?thesis by (simp only: length_distance_def height_distance_def)
  qed
  then show ?thesis
    using assms by (auto simp: resize_dims_unfold scale_def)
qed

theorem ties_take_height_branch_witness:
  "length_distance 872 = height_distance 654 \<and>
   resize_dims 872 654 =
     scale_by_height 654 (fl (of_int 872 / of_int 654)) (height_distance 654)"
  using ties_take_height_branch [of 654 872] by simp

text \<open>Claim C4 as stated fails: at 872 x 654 the two ratios are equal, the code returns
  what the height branch computes, 800 x 600, and the length branch would have given
  799 x 599.\<close>

theorem ties_counterexample:
  "length_distance 872 = height_distance 654 \<and>
   resize_dims 872 654 = Inr (Resize 800 600) \<and>
   scale_by_height 654 (fl (of_int 872 / of_int 654)) (height_distance 654) =
     Inr (Resize 800 600) \<and>
   scale_by_length 872 (fl (of_int 872 / of_int 654)) (length_distance 872) =
     Inr (Resize 799 599)"
  using eval_tie eval_tie_dims eval_tie_height eval_tie_length by simp

section \<open>Fitting a fitted size\<close>

text \<open>
  Claim C9 does not hold of the code: a 56 x 601 image is fitted to 55 x 600, and
  fitting 55 x 600 gives 54 x 600. A height of exactly 600 fails the strict no-op test,
  and in the scaling path \<open>600 * (55 / 600)\<close> is rounded to a float below 55, which
  \<open>int\<close> truncates to 54.
\<close>

theorem fitter_not_idempotent:
  "fitted_size 56 601 = Inr (55, 600) \<and> fitted_size 55 600 = Inr (54, 600)"
  using eval_56_601 eval_55_600 by simp

section \<open>Adding an image\<close>

lemma eval_first_add:
  "add_new_image example_files ''a.png'' ControlFrame_init =
     (Inr None,
      \<lparr>selected_value = 0, buttons = [0],
       frames = [example_frame (example_image ''a.png'' 500 300) (example_image ''a.png'' 500 300)],
       save_button = NORMAL, raised = Some 0\<rparr>)"
  by code_simp

lemma eval_second_add:
  "add_new_image example_files ''b.png''
     \<lparr>selected_value = 0, buttons = [0],
      frames = [example_frame (example_image ''a.png'' 500 300) (example_image ''a.png'' 500 300)],
      save_button = NORMAL, raised = Some 0\<rparr> =
     (Inr None,
      \<lparr>selected_value = 0, buttons = [0, 1],
       frames = [example_frame (example_image ''a.png'' 500 300) (example_image ''a.png'' 500 300),
                 example_frame (example_image ''b.png'' 300 500) (example_image ''b.png'' 300 500)],
       save_button = NORMAL, raised = Some 0\<rparr>)"
  by code_simp

lemma eval_init_b:
  "ImageFrame_init example_files ''b.png'' =
     Inr (example_frame (example_image ''b.png'' 300 500) (example_image ''b.png'' 300 500))"
  by code_simp

text \<open>
  There is one radio button for each frame: that holds when the program starts, and
  \<open>add_new_image\<close> keeps it, however it ends.
\<close>

lemma buttons_frames_init:
  "length (buttons ControlFrame_init) = length (frames ControlFrame_init)"
  by (simp add: ControlFrame_init_def)

lemma buttons_frames_add_new_image:
  assumes "length (buttons self) = length (frames self)"
  shows "length (buttons (snd (add_new_image files filename self))) =
         length (frames (snd (add_new_image files filename self)))"
  using assms
  by (cases "ImageFrame_init files filename")
     (simp_all add: add_new_image_def change_frame_def Let_def)

text \<open>
  Claim C8, as the code has it by design. In a state with one radio button for each
  frame, a call of \<open>add_new_image\<close> that returns has built the new frame from the chosen
  file and appended it at the end of \<open>frames\<close>, at the index \<open>n\<close> that was the length
  of the list; a radio button whose value is \<open>n\<close> has been appended to the buttons, and
  the Save button is enabled. The method returns \<open>None\<close>.
\<close>

theorem add_new_image_appends:
  assumes "add_new_image files filename self = (Inr r, self')"
    and "length (buttons self) = length (frames self)"
  shows "\<exists>new_frame. ImageFrame_init files filename = Inr new_frame \<and>
           frames self' = frames self @ [new_frame] \<and>
           frames self' ! length (frames self) = new_frame \<and>
           length (frames self') = Suc (length (frames self)) \<and>
           buttons self' = buttons self @ [int (length (frames self))] \<and>
           length (buttons self') = length (frames self') \<and>
           save_button self' = NORMAL \<and>
           r = None"
proof (cases "ImageFrame_init files filename")
  case (Inl e)
  with assms(1) show ?thesis by (simp add: add_new_image_def)
next
  case (Inr new_frame)
  with assms show ?thesis
    by (auto simp: add_new_image_def change_frame_def Let_def split: if_splits)
qed

text \<open>The second image, added to the collection that holds the first: the new frame is
  the one at index 1, after the frame that was there, and its button has the value 1.\<close>

theorem add_new_image_appends_witness:
  "\<exists>new_frame. ImageFrame_init example_files ''b.png'' = Inr new_frame \<and>
     [example_frame (example_image ''a.png'' 500 300) (example_image ''a.png'' 500 300),
      example_frame (example_image ''b.png'' 300 500) (example_image ''b.png'' 300 500)] =
       [example_frame (example_image ''a.png'' 500 300) (example_image ''a.png'' 500 300)] @
       [new_frame] \<and>
     [example_frame (example_image ''a.png'' 500 300) (example_image ''a.png'' 500 300),
      example_frame (example_image ''b.png'' 300 500) (example_image ''b.png'' 300 500)] ! 1 =
       new_frame \<and>
     [0, 1] = [0] @ [int 1]"
  using add_new_image_appends [OF eval_second_add] by simp

text \<open>Claim C8 as stated fails: adding a second image to a collection of length 1 returns
  \<open>None\<close>, not 1, and \<open>selected_value\<close> is still 0, so that \<open>change_frame\<close> raises
  the first frame again.\<close>

theorem add_new_image_selection_counterexample:
  "length (frames (snd (add_new_image example_files ''a.png'' ControlFrame_init))) = 1 \<and>
   fst (add_new_image example_files ''b.png''
          (snd (add_new_image example_files ''a.png'' ControlFrame_init))) = Inr None \<and>
   selected_value (snd (add_new_image example_files ''b.png''
          (snd (add_new_image example_files ''a.png'' ControlFrame_init)))) = 0 \<and>
   raised (snd (add_new_image example_files ''b.png''
          (snd (add_new_image example_files ''a.png'' ControlFrame_init)))) = Some 0"
  by (simp add: eval_first_add eval_second_add)

section \<open>Rounding\<close>

text \<open>The bit length and the binary exponent are what their names say.\<close>

lemma bitlen_pos: "0 < n \<Longrightarrow> 0 < bitlen n"
  by (subst bitlen.simps) simp

lemma bitlen_0: "bitlen 0 = 0"
  by (subst bitlen.simps) simp

lemma bitlen_1: "bitlen 1 = 1"
  by (subst bitlen.simps) (simp add: bitlen_0)

lemma bitlen_bounds: "0 < n \<Longrightarrow> 2 ^ (bitlen n - 1) \<le> n \<and> n < 2 ^ bitlen n"
proof (induction n rule: bitlen.induct)
  case (1 n)
  have bl: "bitlen n = Suc (bitlen (n div 2))"
    using "1.prems" by (subst bitlen.simps) simp
  show ?case
  proof (cases "n div 2 = 0")
    case True
    then have "n = 1" using "1.prems" by presburger
    then show ?thesis
      by (simp add: bitlen_1)
  next
    case False
    then have pos: "0 < n div 2" using "1.prems" by presburger
    have ih: "2 ^ (bitlen (n div 2) - 1) \<le> n div 2 \<and> n div 2 < 2 ^ bitlen (n div 2)"
      using "1.IH" "1.prems" pos by simp
    obtain k where k: "bitlen (n div 2) = Suc k"
      using bitlen_pos [OF pos] by (cases "bitlen (n div 2)") auto
    from ih k have lo: "(2::int) ^ k \<le> n div 2" and hi: "n div 2 < 2 * 2 ^ k"
      by simp_all
    have "2 * (n div 2) \<le> n" "n \<le> 2 * (n div 2) + 1" by presburger+
    with lo hi show ?thesis by (simp add: bl k)
  qed
qed

lemma exponent_bounds:
  assumes "0 < q"
  shows "power_int 2 (exponent q) \<le> q \<and> q < power_int 2 (exponent q + 1)"
proof -
  obtain a b where ab: "quotient_of q = (a, b)" by (cases "quotient_of q")
  have b: "0 < b" using ab by (rule quotient_of_denom_pos)
  have q: "q = of_int a / of_int b" using ab by (rule quotient_of_div)
  have a: "0 < a" using assms b unfolding q by (simp add: zero_less_divide_iff)
  define d where "d = int (bitlen a) - int (bitlen b)"
  have e: "exponent q = (if power_int 2 d \<le> q then d else d - 1)"
    by (simp add: exponent_def ab d_def)
  obtain ka where ka: "bitlen a = Suc ka" using bitlen_pos [OF a] by (cases "bitlen a") auto
  obtain kb where kb: "bitlen b = Suc kb" using bitlen_pos [OF b] by (cases "bitlen b") auto
  have d: "d = int ka - int kb" by (simp add: d_def ka kb)
  from bitlen_bounds [OF a] ka have a_lo: "(2::int) ^ ka \<le> a" and a_hi: "a < 2 * 2 ^ ka" by simp_all
  from bitlen_bounds [OF b] kb have b_lo: "(2::int) ^ kb \<le> b" and b_hi: "b < 2 * 2 ^ kb" by simp_all
  have ra_lo: "(2::rat) ^ ka \<le> of_int a"
  proof -
    have "(of_int (2 ^ ka) :: rat) \<le> of_int a" using a_lo by (simp only: of_int_le_iff)
    then show ?thesis by simp
  qed
  have ra_hi: "of_int a < (2::rat) * 2 ^ ka"
  proof -
    have "(of_int a :: rat) < of_int (2 * 2 ^ ka)" using a_hi by (simp only: of_int_less_iff)
    then show ?thesis by simp
  qed
  have rb_lo: "(2::rat) ^ kb \<le> of_int b"
  proof -
    have "(of_int (2 ^ kb) :: rat) \<le> of_int b" using b_lo by (simp only: of_int_le_iff)
    then show ?thesis by simp
  qed
  have rb_hi: "of_int b < (2::rat) * 2 ^ kb"
  proof -
    have "(of_int b :: rat) < of_int (2 * 2 ^ kb)" using b_hi by (simp only: of_int_less_iff)
    then show ?thesis by simp
  qed
  have rb: "(0::rat) < of_int b" using b by simp
  have pd: "power_int (2::rat) d = 2 ^ ka / 2 ^ kb"
    by (simp add: d power_int_diff)
  have upper: "q < power_int 2 (d + 1)"
  proof -
    have "of_int a * (2::rat) ^ kb < (2 * 2 ^ ka) * of_int b"
    proof -
      have "of_int a * (2::rat) ^ kb \<le> of_int a * of_int b"
        using rb_lo a by (intro mult_left_mono) simp_all
      also have "\<dots> < (2 * 2 ^ ka) * of_int b"
        using ra_hi rb by (intro mult_strict_right_mono) simp_all
      finally show ?thesis .
    qed
    then have "of_int a / of_int b < (2 * 2 ^ ka) / (2::rat) ^ kb"
      using rb by (simp add: field_simps)
    also have "\<dots> = power_int 2 (d + 1)"
      by (simp add: power_int_add pd)
    finally show ?thesis by (simp add: q)
  qed
  have lower: "power_int 2 (d - 1) \<le> q"
  proof -
    have "(2::rat) ^ ka * of_int b \<le> of_int a * (2 * 2 ^ kb)"
    proof -
      have "(2::rat) ^ ka * of_int b \<le> of_int a * of_int b"
        using ra_lo rb by (intro mult_right_mono) simp_all
      also have "\<dots> \<le> of_int a * (2 * 2 ^ kb)"
        using rb_hi a by (intro mult_left_mono) simp_all
      finally show ?thesis .
    qed
    then have "(2::rat) ^ ka / (2 * 2 ^ kb) \<le> of_int a / of_int b"
      using rb by (simp add: field_simps)
    moreover have "power_int (2::rat) (d - 1) = 2 ^ ka / (2 * 2 ^ kb)"
      by (simp add: power_int_diff pd)
    ultimately show ?thesis by (simp add: q)
  qed
  show ?thesis
  proof (cases "power_int 2 d \<le> q")
    case True
    then show ?thesis using upper by (simp add: e)
  next
    case False
    then show ?thesis using lower by (simp add: e)
  qed
qed

lemma round_half_even_bounds:
  "\<bar>of_int (round_half_even s) - s\<bar> \<le> 1 / 2"
proof -
  have "of_int \<lfloor>s\<rfloor> \<le> s" "s < of_int \<lfloor>s\<rfloor> + 1" by linarith+
  then show ?thesis
    by (auto simp: round_half_even_def Let_def)
qed

lemma fl_error:
  assumes "0 < q"
  shows "\<bar>fl q - q\<bar> \<le> q / 2 ^ 53"
proof -
  define e where "e = exponent q"
  define P :: rat where "P = power_int 2 (e - 52)"
  define m where "m = round_half_even (q * power_int 2 (52 - e))"
  have P: "0 < P" by (simp add: P_def)
  have inv: "power_int (2::rat) (52 - e) = 1 / P"
    using power_int_minus_divide [of "2::rat" "e - 52"] by (simp add: P_def)
  have fl: "fl q = of_int m * P"
    using assms by (simp add: fl_def Let_def e_def m_def P_def)
  have "\<bar>of_int m - q * (1 / P)\<bar> \<le> 1 / 2"
    unfolding m_def inv by (rule round_half_even_bounds)
  then have "\<bar>of_int m - q * (1 / P)\<bar> * P \<le> 1 / 2 * P"
    using P by (intro mult_right_mono) simp_all
  moreover have "\<bar>of_int m - q * (1 / P)\<bar> * P = \<bar>of_int m * P - q\<bar>"
  proof -
    have "\<bar>of_int m - q * (1 / P)\<bar> * P = \<bar>(of_int m - q * (1 / P)) * P\<bar>"
      using P by (simp add: abs_mult)
    also have "(of_int m - q * (1 / P)) * P = of_int m * P - q"
      using P by (simp add: algebra_simps)
    finally show ?thesis .
  qed
  ultimately have err: "\<bar>fl q - q\<bar> \<le> P / 2" by (simp add: fl)
  have "power_int 2 e \<le> q"
    using exponent_bounds [OF assms] by (simp add: e_def)
  moreover have "power_int (2::rat) e = P * 2 ^ 52"
    by (simp add: P_def power_int_diff)
  ultimately have "P * 2 ^ 52 \<le> q" by simp
  then have "P / 2 \<le> q / 2 ^ 53" by simp
  with err show ?thesis by linarith
qed

lemma fl_bounds:
  assumes "0 < q"
  shows "q * (1 - 1 / 2 ^ 53) \<le> fl q" and "fl q \<le> q * (1 + 1 / 2 ^ 53)"
proof -
  define d where "d = q / 2 ^ 53"
  have "\<bar>fl q - q\<bar> \<le> d"
    unfolding d_def by (rule fl_error [OF assms])
  then have "q - d \<le> fl q" and "fl q \<le> q + d" by linarith+
  moreover have "q * (1 - 1 / 2 ^ 53) = q - d" and "q * (1 + 1 / 2 ^ 53) = q + d"
    by (simp_all add: d_def algebra_simps)
  ultimately show "q * (1 - 1 / 2 ^ 53) \<le> fl q" and "fl q \<le> q * (1 + 1 / 2 ^ 53)"
    by simp_all
qed

lemma fl_pos: "0 < q \<Longrightarrow> 0 < fl q"
proof -
  assume q: "0 < q"
  have "0 < q * (1 - 1 / 2 ^ 53)" using q by simp
  with fl_bounds(1) [OF q] show ?thesis by linarith
qed

lemma fl_zero: "fl 0 = 0"
  by (simp add: fl_def)

lemma fl_nonneg: "0 \<le> q \<Longrightarrow> 0 \<le> fl q"
  using fl_pos [of q] by (cases "q = 0") (simp_all add: fl_zero less_le)

text \<open>A quotient or a product of two rounded operands, rounded once more, is within
  \<open>2 ^ -51\<close> of the exact value, relatively.\<close>

lemma numeric_bounds:
  fixes u :: rat
  assumes "u = 1 / 2 ^ 53"
  shows "0 < 1 - u" "0 < 1 + u"
    "(1 + u) / (1 - u) * (1 + u) \<le> 1 + 1 / 2 ^ 51"
    "1 - 1 / 2 ^ 51 \<le> (1 - u) / (1 + u) * (1 - u)"
    "(1 + u) * (1 + u) * (1 + u) \<le> 1 + 1 / 2 ^ 51"
    "1 - 1 / 2 ^ 51 \<le> (1 - u) * (1 - u) * (1 - u)"
  unfolding assms by simp_all

lemma fl_div_bounds:
  assumes a: "0 < a" and b: "0 < b"
    and fa: "a * (1 - 1 / 2 ^ 53) \<le> fa" "fa \<le> a * (1 + 1 / 2 ^ 53)"
    and fb: "b * (1 - 1 / 2 ^ 53) \<le> fb" "fb \<le> b * (1 + 1 / 2 ^ 53)"
  shows "a / b * (1 - 1 / 2 ^ 51) \<le> fl (fa / fb)"
    and "fl (fa / fb) \<le> a / b * (1 + 1 / 2 ^ 51)"
    and "0 < fa / fb"
proof -
  define u :: rat where "u = 1 / 2 ^ 53"
  note nb = numeric_bounds [OF u_def]
  have fa': "a * (1 - u) \<le> fa" "fa \<le> a * (1 + u)" using fa unfolding u_def .
  have fb': "b * (1 - u) \<le> fb" "fb \<le> b * (1 + u)" using fb unfolding u_def .
  have "0 < a * (1 - u)" using a nb(1) by (rule mult_pos_pos)
  then have fa_pos: "0 < fa" using fa'(1) by (rule less_le_trans)
  have den: "0 < b * (1 - u)" using b nb(1) by (rule mult_pos_pos)
  then have fb_pos: "0 < fb" using fb'(1) by (rule less_le_trans)
  show r_pos: "0 < fa / fb" using fa_pos fb_pos by (rule divide_pos_pos)
  have ab: "0 \<le> a / b" using a b by simp
  have num: "0 \<le> a * (1 + u)" using a nb(2) by simp
  have "fa / fb \<le> (a * (1 + u)) / (b * (1 - u))"
    using num fa'(2) den fb'(1) by (rule frac_le)
  also have "\<dots> = a / b * ((1 + u) / (1 - u))" by (rule times_divide_times_eq [symmetric])
  finally have r_hi: "fa / fb \<le> a / b * ((1 + u) / (1 - u))" .
  have "(a * (1 - u)) / (b * (1 + u)) \<le> fa / fb"
    using less_imp_le [OF fa_pos] fa'(1) fb_pos fb'(2) by (rule frac_le)
  moreover have "(a * (1 - u)) / (b * (1 + u)) = a / b * ((1 - u) / (1 + u))"
    by (rule times_divide_times_eq [symmetric])
  ultimately have r_lo: "a / b * ((1 - u) / (1 + u)) \<le> fa / fb" by (simp only:)
  have "fl (fa / fb) \<le> fa / fb * (1 + u)"
    unfolding u_def by (rule fl_bounds(2) [OF r_pos])
  also have "\<dots> \<le> a / b * ((1 + u) / (1 - u)) * (1 + u)"
    using r_hi less_imp_le [OF nb(2)] by (rule mult_right_mono)
  also have "\<dots> = a / b * ((1 + u) / (1 - u) * (1 + u))" by (rule mult.assoc)
  also have "\<dots> \<le> a / b * (1 + 1 / 2 ^ 51)"
    using nb(3) ab by (rule mult_left_mono)
  finally show "fl (fa / fb) \<le> a / b * (1 + 1 / 2 ^ 51)" .
  have "a / b * (1 - 1 / 2 ^ 51) \<le> a / b * ((1 - u) / (1 + u) * (1 - u))"
    using nb(4) ab by (rule mult_left_mono)
  also have "\<dots> = a / b * ((1 - u) / (1 + u)) * (1 - u)" by (rule mult.assoc [symmetric])
  also have "\<dots> \<le> fa / fb * (1 - u)"
    using r_lo less_imp_le [OF nb(1)] by (rule mult_right_mono)
  also have "\<dots> \<le> fl (fa / fb)"
    unfolding u_def by (rule fl_bounds(1) [OF r_pos])
  finally show "a / b * (1 - 1 / 2 ^ 51) \<le> fl (fa / fb)" .
qed

lemma fl_mul_bounds:
  assumes a: "0 < a" and b: "0 < b"
    and fa: "a * (1 - 1 / 2 ^ 53) \<le> fa" "fa \<le> a * (1 + 1 / 2 ^ 53)"
    and fb: "b * (1 - 1 / 2 ^ 53) \<le> fb" "fb \<le> b * (1 + 1 / 2 ^ 53)"
  shows "a * b * (1 - 1 / 2 ^ 51) \<le> fl (fa * fb)"
    and "fl (fa * fb) \<le> a * b * (1 + 1 / 2 ^ 51)"
proof -
  define u :: rat where "u = 1 / 2 ^ 53"
  note nb = numeric_bounds [OF u_def]
  have fa': "a * (1 - u) \<le> fa" "fa \<le> a * (1 + u)" using fa unfolding u_def .
  have fb': "b * (1 - u) \<le> fb" "fb \<le> b * (1 + u)" using fb unfolding u_def .
  have al: "0 < a * (1 - u)" using a nb(1) by (rule mult_pos_pos)
  then have fa_pos: "0 < fa" using fa'(1) by (rule less_le_trans)
  have bl: "0 < b * (1 - u)" using b nb(1) by (rule mult_pos_pos)
  then have fb_pos: "0 < fb" using fb'(1) by (rule less_le_trans)
  have r_pos: "0 < fa * fb" using fa_pos fb_pos by (rule mult_pos_pos)
  have ab: "0 \<le> a * b" using a b by simp
  have "fa * fb \<le> (a * (1 + u)) * (b * (1 + u))"
  proof (rule mult_mono)
    show "fa \<le> a * (1 + u)" by (rule fa'(2))
    show "fb \<le> b * (1 + u)" by (rule fb'(2))
    show "0 \<le> a * (1 + u)" using a nb(2) by simp
    show "0 \<le> fb" using fb_pos by simp
  qed
  also have "\<dots> = a * b * ((1 + u) * (1 + u))" by (simp only: mult_ac)
  finally have r_hi: "fa * fb \<le> a * b * ((1 + u) * (1 + u))" .
  have "(a * (1 - u)) * (b * (1 - u)) \<le> fa * fb"
  proof (rule mult_mono)
    show "a * (1 - u) \<le> fa" by (rule fa'(1))
    show "b * (1 - u) \<le> fb" by (rule fb'(1))
    show "0 \<le> fa" using fa_pos by simp
    show "0 \<le> b * (1 - u)" using bl by simp
  qed
  moreover have "(a * (1 - u)) * (b * (1 - u)) = a * b * ((1 - u) * (1 - u))"
    by (simp only: mult_ac)
  ultimately have r_lo: "a * b * ((1 - u) * (1 - u)) \<le> fa * fb" by (simp only:)
  have "fl (fa * fb) \<le> fa * fb * (1 + u)"
    unfolding u_def by (rule fl_bounds(2) [OF r_pos])
  also have "\<dots> \<le> a * b * ((1 + u) * (1 + u)) * (1 + u)"
    using r_hi less_imp_le [OF nb(2)] by (rule mult_right_mono)
  also have "\<dots> = a * b * ((1 + u) * (1 + u) * (1 + u))" by (rule mult.assoc)
  also have "\<dots> \<le> a * b * (1 + 1 / 2 ^ 51)"
    using nb(5) ab by (rule mult_left_mono)
  finally show "fl (fa * fb) \<le> a * b * (1 + 1 / 2 ^ 51)" .
  have "a * b * (1 - 1 / 2 ^ 51) \<le> a * b * ((1 - u) * (1 - u) * (1 - u))"
    using nb(6) ab by (rule mult_left_mono)
  also have "\<dots> = a * b * ((1 - u) * (1 - u)) * (1 - u)" by (rule mult.assoc [symmetric])
  also have "\<dots> \<le> fa * fb * (1 - u)"
    using r_lo less_imp_le [OF nb(1)] by (rule mult_right_mono)
  also have "\<dots> \<le> fl (fa * fb)"
    unfolding u_def by (rule fl_bounds(1) [OF r_pos])
  finally show "a * b * (1 - 1 / 2 ^ 51) \<le> fl (fa * fb)" .
qed

text \<open>Truncating an approximation \<open>q\<close> of \<open>R * N / D\<close> gives an integer \<open>k\<close> with
  \<open>k * D\<close> within \<open>D + N\<close> of \<open>R * N\<close>, and \<open>k\<close> is at least one when \<open>D\<close> is at
  most \<open>(R - 1) * N\<close>.\<close>

lemma floor_of_scaled:
  fixes R N D x q :: rat
  assumes R: "0 < R" "R \<le> 800" and N: "0 < N" and D: "0 < D"
    and lo: "x * (1 - 1 / 2 ^ 51) \<le> q" and hi: "q \<le> x * (1 + 1 / 2 ^ 51)"
    and xD: "x * D = R * N"
  shows "\<bar>R * N - of_int \<lfloor>q\<rfloor> * D\<bar> \<le> D + N"
    and "D \<le> (R - 1) * N \<Longrightarrow> 1 \<le> \<lfloor>q\<rfloor>"
    and "0 \<le> q"
proof -
  define e :: rat where "e = 1 / 2 ^ 51"
  define k :: rat where "k = of_int \<lfloor>q\<rfloor>"
  have e: "0 < e" "800 * e \<le> 1" by (simp_all add: e_def)
  have lo': "x * (1 - e) \<le> q" and hi': "q \<le> x * (1 + e)"
    using lo hi unfolding e_def .
  have k: "k \<le> q" "q < k + 1" unfolding k_def by linarith+
  have "R * e \<le> 800 * e" using R(2) e(1) by (intro mult_right_mono) simp_all
  then have Re: "R * e \<le> 1" using e(2) by linarith
  have "R * e * N \<le> 1 * N" using Re N by (intro mult_right_mono) simp_all
  then have RNe: "R * N * e \<le> N" by (simp add: mult_ac)
  have up: "x * (1 + e) * D = R * N + R * N * e"
  proof -
    have "x * (1 + e) * D = (x * D) * (1 + e)" by (simp only: mult_ac)
    also have "\<dots> = R * N * (1 + e)" by (simp only: xD)
    also have "\<dots> = R * N + R * N * e" by (simp add: algebra_simps)
    finally show ?thesis .
  qed
  have down: "x * (1 - e) * D = R * N - R * N * e"
  proof -
    have "x * (1 - e) * D = (x * D) * (1 - e)" by (simp only: mult_ac)
    also have "\<dots> = R * N * (1 - e)" by (simp only: xD)
    also have "\<dots> = R * N - R * N * e" by (simp add: algebra_simps)
    finally show ?thesis .
  qed
  have kD: "k * D \<le> q * D" using k(1) D by (intro mult_right_mono) simp_all
  have qD_hi: "q * D \<le> x * (1 + e) * D" using hi' D by (intro mult_right_mono) simp_all
  have qD_lo: "x * (1 - e) * D \<le> q * D" using lo' D by (intro mult_right_mono) simp_all
  have "q * D < (k + 1) * D" using k(2) D by (intro mult_strict_right_mono)
  then have kD': "q * D < k * D + D" by (simp add: algebra_simps)
  from kD qD_hi up RNe have a: "k * D - R * N \<le> N" by linarith
  from kD' qD_lo down RNe have b: "R * N - k * D \<le> N + D" by linarith
  from a b D N show "\<bar>R * N - of_int \<lfloor>q\<rfloor> * D\<bar> \<le> D + N"
    unfolding k_def by linarith
  have xpos: "0 \<le> x * D" using xD R(1) N by simp
  then have "0 \<le> x" using D by (simp add: zero_le_mult_iff)
  moreover have "0 \<le> 1 - e" by (simp add: e_def)
  ultimately have "0 \<le> x * (1 - e)" by simp
  with lo' show "0 \<le> q" by linarith
  show "1 \<le> \<lfloor>q\<rfloor>" if "D \<le> (R - 1) * N"
  proof -
    have "(R - 1) * N = R * N - N" by (simp add: algebra_simps)
    with that qD_lo down RNe have "1 * D \<le> q * D" by linarith
    then have "1 \<le> q" using D by (simp only: mult_le_cancel_right_pos)
    then show ?thesis by linarith
  qed
qed

section \<open>The two branches of the scaling path\<close>

lemma float_of_int_bounds:
  assumes "0 < n"
  shows "of_int n * (1 - 1 / 2 ^ 53) \<le> float_of_int n"
    and "float_of_int n \<le> of_int n * (1 + 1 / 2 ^ 53)"
  using fl_bounds [of "of_int n"] assms by (simp_all add: float_of_int_def)

lemma first_quotient:
  fixes c :: rat
  assumes n: "0 < n" and c: "0 < c"
  shows "c * (1 - 1 / 2 ^ 51) \<le> fl (float_of_int n / fl (of_int n / c))"
    and "fl (float_of_int n / fl (of_int n / c)) \<le> c * (1 + 1 / 2 ^ 51)"
    and "0 < fl (of_int n / c)"
proof -
  have a: "(0::rat) < of_int n" using n by simp
  have b: "0 < of_int n / c" using a c by simp
  have ab: "of_int n / (of_int n / c) = c" using a by simp
  note d = fl_div_bounds [OF a b float_of_int_bounds [OF n] fl_bounds [OF b]]
  show "c * (1 - 1 / 2 ^ 51) \<le> fl (float_of_int n / fl (of_int n / c))"
    using d(1) unfolding ab .
  show "fl (float_of_int n / fl (of_int n / c)) \<le> c * (1 + 1 / 2 ^ 51)"
    using d(2) unfolding ab .
  show "0 < fl (of_int n / c)" using b by (rule fl_pos)
qed

lemma length_resize_range:
  assumes "0 < l"
  shows "799 \<le> \<lfloor>fl (float_of_int l / length_distance l)\<rfloor>"
    and "\<lfloor>fl (float_of_int l / length_distance l)\<rfloor> \<le> 800"
    and "0 < length_distance l"
proof -
  note q = first_quotient [OF assms, of 800, folded length_distance_def]
  have "(799::rat) \<le> 800 * (1 - 1 / 2 ^ 51)" "(800::rat) * (1 + 1 / 2 ^ 51) < 801" by simp_all
  with q(1) q(2) have "799 \<le> fl (float_of_int l / length_distance l)"
    "fl (float_of_int l / length_distance l) < 801" by simp_all
  then show "799 \<le> \<lfloor>fl (float_of_int l / length_distance l)\<rfloor>"
    and "\<lfloor>fl (float_of_int l / length_distance l)\<rfloor> \<le> 800" by linarith+
  show "0 < length_distance l" using q(3) by simp
qed

lemma height_resize_range:
  assumes "0 < h"
  shows "599 \<le> \<lfloor>fl (float_of_int h / height_distance h)\<rfloor>"
    and "\<lfloor>fl (float_of_int h / height_distance h)\<rfloor> \<le> 600"
    and "0 < height_distance h"
proof -
  note q = first_quotient [OF assms, of 600, folded height_distance_def]
  have "(599::rat) \<le> 600 * (1 - 1 / 2 ^ 51)" "(600::rat) * (1 + 1 / 2 ^ 51) < 601" by simp_all
  with q(1) q(2) have "599 \<le> fl (float_of_int h / height_distance h)"
    "fl (float_of_int h / height_distance h) < 601" by simp_all
  then show "599 \<le> \<lfloor>fl (float_of_int h / height_distance h)\<rfloor>"
    and "\<lfloor>fl (float_of_int h / height_distance h)\<rfloor> \<le> 600" by linarith+
  show "0 < height_distance h" using q(3) by simp
qed

lemma of_int_abs_bound:
  fixes a b c d s :: int
  assumes "\<bar>(of_int a :: rat) * of_int b - of_int c * of_int d\<bar> \<le> of_int s"
  shows "\<bar>a * b - c * d\<bar> \<le> s"
proof -
  have "(of_int \<bar>a * b - c * d\<bar> :: rat) \<le> of_int s" using assms by simp
  then show ?thesis by (simp only: of_int_le_iff)
qed

lemma scale_by_length_props:
  assumes l: "0 < l" and h: "0 < h"
  defines "ar \<equiv> fl (of_int l / of_int h)"
  defines "lr \<equiv> \<lfloor>fl (float_of_int l / length_distance l)\<rfloor>"
  defines "hr \<equiv> \<lfloor>fl (float_of_int lr / ar)\<rfloor>"
  shows "scale_by_length l ar (length_distance l) = Inr (Resize lr hr)"
    and "\<bar>lr * h - hr * l\<bar> \<le> l + h"
    and "l \<le> 798 * h \<Longrightarrow> 1 \<le> hr"
    and "799 \<le> lr" and "lr \<le> 800"
proof -
  note rng = length_resize_range [OF l, folded lr_def]
  show "799 \<le> lr" and "lr \<le> 800" by (rule rng)+
  have lr_pos: "0 < lr" using rng(1) by linarith
  have L: "(0::rat) < of_int l" and H: "(0::rat) < of_int h" using l h by simp_all
  have LH: "(0::rat) < of_int l / of_int h" using L H by simp
  have ar_pos: "0 < ar" unfolding ar_def using LH by (rule fl_pos)
  have R: "(0::rat) < of_int lr" "(of_int lr :: rat) \<le> 800" using lr_pos rng(2) by simp_all
  define x :: rat where "x = of_int lr / (of_int l / of_int h)"
  have xD: "x * of_int l = of_int lr * of_int h" using L H by (simp add: x_def)
  note d = fl_div_bounds [OF R(1) LH float_of_int_bounds [OF lr_pos] fl_bounds [OF LH],
    folded ar_def x_def]
  note f = floor_of_scaled [OF R H L d(1) d(2) xD, folded hr_def]
  have q1: "0 \<le> fl (float_of_int l / length_distance l)"
    using rng(1) unfolding lr_def by linarith
  have q2: "0 \<le> fl (float_of_int lr / ar)" by (rule f(3))
  show "scale_by_length l ar (length_distance l) = Inr (Resize lr hr)"
    using rng(3) ar_pos q1 q2
    by (simp add: scale_by_length_def float_truediv_def py_int_def Let_def lr_def [symmetric]
        hr_def [symmetric])
  have "\<bar>(of_int lr :: rat) * of_int h - of_int hr * of_int l\<bar> \<le> of_int (l + h)"
    using f(1) by simp
  then show "\<bar>lr * h - hr * l\<bar> \<le> l + h" by (rule of_int_abs_bound)
  show "1 \<le> hr" if "l \<le> 798 * h"
  proof (rule f(2))
    have "(of_int l :: rat) \<le> of_int (798 * h)" using that by (simp only: of_int_le_iff)
    also have "\<dots> = 798 * of_int h" by simp
    also have "\<dots> \<le> (of_int lr - 1) * of_int h"
    proof (rule mult_right_mono)
      have "(of_int (799::int) :: rat) \<le> of_int lr" using rng(1) by (simp only: of_int_le_iff)
      then show "(798::rat) \<le> of_int lr - 1" by simp
      show "(0::rat) \<le> of_int h" using H by simp
    qed
    finally show "(of_int l :: rat) \<le> (of_int lr - 1) * of_int h" .
  qed
qed

lemma scale_by_height_props:
  assumes l: "0 < l" and h: "0 < h"
  defines "ar \<equiv> fl (of_int l / of_int h)"
  defines "hr \<equiv> \<lfloor>fl (float_of_int h / height_distance h)\<rfloor>"
  defines "lr \<equiv> \<lfloor>fl (float_of_int hr * ar)\<rfloor>"
  shows "scale_by_height h ar (height_distance h) = Inr (Resize lr hr)"
    and "\<bar>lr * h - hr * l\<bar> \<le> l + h"
    and "h \<le> 598 * l \<Longrightarrow> 1 \<le> lr"
    and "599 \<le> hr" and "hr \<le> 600"
proof -
  note rng = height_resize_range [OF h, folded hr_def]
  show "599 \<le> hr" and "hr \<le> 600" by (rule rng)+
  have hr_pos: "0 < hr" using rng(1) by linarith
  have L: "(0::rat) < of_int l" and H: "(0::rat) < of_int h" using l h by simp_all
  have LH: "(0::rat) < of_int l / of_int h" using L H by simp
  have R: "(0::rat) < of_int hr" "(of_int hr :: rat) \<le> 800" using hr_pos rng(2) by simp_all
  define x :: rat where "x = of_int hr * (of_int l / of_int h)"
  have xD: "x * of_int h = of_int hr * of_int l" using L H by (simp add: x_def)
  note d = fl_mul_bounds [OF R(1) LH float_of_int_bounds [OF hr_pos] fl_bounds [OF LH],
    folded ar_def x_def]
  note f = floor_of_scaled [OF R L H d(1) d(2) xD, folded lr_def]
  have q1: "0 \<le> fl (float_of_int h / height_distance h)"
    using rng(1) unfolding hr_def by linarith
  have q2: "0 \<le> fl (float_of_int hr * ar)" by (rule f(3))
  show "scale_by_height h ar (height_distance h) = Inr (Resize lr hr)"
    using rng(3) q1 q2
    by (simp add: scale_by_height_def float_truediv_def float_mul_def py_int_def Let_def
        hr_def [symmetric] lr_def [symmetric])
  have "\<bar>(of_int hr :: rat) * of_int l - of_int lr * of_int h\<bar> \<le> of_int (h + l)"
    using f(1) by simp
  then have "\<bar>hr * l - lr * h\<bar> \<le> h + l" by (rule of_int_abs_bound)
  then show "\<bar>lr * h - hr * l\<bar> \<le> l + h" by linarith
  show "1 \<le> lr" if "h \<le> 598 * l"
  proof (rule f(2))
    have "(of_int h :: rat) \<le> of_int (598 * l)" using that by (simp only: of_int_le_iff)
    also have "\<dots> = 598 * of_int l" by simp
    also have "\<dots> \<le> (of_int hr - 1) * of_int l"
    proof (rule mult_right_mono)
      have "(of_int (599::int) :: rat) \<le> of_int hr" using rng(1) by (simp only: of_int_le_iff)
      then show "(598::rat) \<le> of_int hr - 1" by simp
      show "(0::rat) \<le> of_int l" using L by simp
    qed
    finally show "(of_int h :: rat) \<le> (of_int hr - 1) * of_int l" .
  qed
qed

lemma resize_dims_scaled:
  assumes "height \<noteq> 0" and "\<not> (length' < 800 \<and> height < 600)"
  shows "resize_dims length' height =
     scale length' height (fl (of_int length' / of_int height))
       (length_distance length') (height_distance height)"
  by (simp only: resize_dims_unfold [OF assms(1)] if_not_P [OF assms(2)])

lemma resize_dims_inside:
  assumes "height \<noteq> 0" and "length' < 800 \<and> height < 600"
  shows "resize_dims length' height = Inr Keep"
  by (simp only: resize_dims_unfold [OF assms(1)] if_P [OF assms(2)])

lemma resize_dims_Resize:
  assumes "0 < l" and "0 < h" and "resize_dims l h = Inr (Resize a b)"
  shows "\<bar>a * h - b * l\<bar> \<le> l + h"
    and "l \<le> 798 * h \<Longrightarrow> h \<le> 598 * l \<Longrightarrow> 0 < a \<and> 0 < b"
proof -
  have h0: "h \<noteq> 0" using assms(2) by simp
  have outside: "\<not> (l < 800 \<and> h < 600)"
  proof
    assume "l < 800 \<and> h < 600"
    then have "resize_dims l h = Inr Keep" by (rule resize_dims_inside [OF h0])
    with assms(3) show False by simp
  qed
  have sc: "scale l h (fl (of_int l / of_int h)) (length_distance l) (height_distance h) =
      Inr (Resize a b)"
    using assms(3) by (simp only: resize_dims_scaled [OF h0 outside])
  let ?lr = "\<lfloor>fl (float_of_int l / length_distance l)\<rfloor>"
  let ?hr = "\<lfloor>fl (float_of_int h / height_distance h)\<rfloor>"
  note pl = scale_by_length_props [OF assms(1,2)]
  note ph = scale_by_height_props [OF assms(1,2)]
  show "\<bar>a * h - b * l\<bar> \<le> l + h"
  proof (cases "length_distance l > height_distance h")
    case True
    with sc have "scale_by_length l (fl (of_int l / of_int h)) (length_distance l) =
        Inr (Resize a b)" by (simp add: scale_def)
    then have "a = ?lr" and "b = \<lfloor>fl (float_of_int ?lr / fl (of_int l / of_int h))\<rfloor>"
      unfolding pl(1) by auto
    then show ?thesis using pl(2) by (simp only:)
  next
    case False
    with sc have "scale_by_height h (fl (of_int l / of_int h)) (height_distance h) =
        Inr (Resize a b)" by (simp add: scale_def)
    then have "b = ?hr" and "a = \<lfloor>fl (float_of_int ?hr * fl (of_int l / of_int h))\<rfloor>"
      unfolding ph(1) by auto
    then show ?thesis using ph(2) by (simp only:)
  qed
  show "0 < a \<and> 0 < b" if "l \<le> 798 * h" "h \<le> 598 * l"
  proof (cases "length_distance l > height_distance h")
    case True
    with sc have "scale_by_length l (fl (of_int l / of_int h)) (length_distance l) =
        Inr (Resize a b)" by (simp add: scale_def)
    then have ab: "a = ?lr" "b = \<lfloor>fl (float_of_int ?lr / fl (of_int l / of_int h))\<rfloor>"
      unfolding pl(1) by auto
    have "1 \<le> b" unfolding ab using that(1) by (rule pl(3))
    moreover have "799 \<le> a" unfolding ab by (rule pl(4))
    ultimately show ?thesis by linarith
  next
    case False
    with sc have "scale_by_height h (fl (of_int l / of_int h)) (height_distance h) =
        Inr (Resize a b)" by (simp add: scale_def)
    then have ab: "b = ?hr" "a = \<lfloor>fl (float_of_int ?hr * fl (of_int l / of_int h))\<rfloor>"
      unfolding ph(1) by auto
    have "1 \<le> a" unfolding ab using that(2) by (rule ph(3))
    moreover have "599 \<le> b" unfolding ab by (rule ph(4))
    ultimately show ?thesis by linarith
  qed
qed

lemma resize_dims_total:
  assumes "0 < l" and "0 < h"
  shows "resize_dims l h = Inr Keep \<and> l < 800 \<and> h < 600 \<or>
         (\<exists>a b. resize_dims l h = Inr (Resize a b))"
proof (cases "l < 800 \<and> h < 600")
  case True
  then show ?thesis using resize_dims_inside [of h l] assms(2) by simp
next
  case False
  have h0: "h \<noteq> 0" using assms(2) by simp
  show ?thesis
    using scale_by_length_props(1) [OF assms] scale_by_height_props(1) [OF assms]
    by (simp add: resize_dims_scaled [OF h0 False] scale_def)
qed

section \<open>Positive sizes\<close>

lemma eval_init_n: "ImageFrame_init example_files ''n.png'' = Inl ValueError"
  by code_simp

text \<open>
  Claim C1 does not hold of the code: for a 1 x 100000 image the computed size is
  0 x 600, since \<open>600 * (1 / 100000)\<close> is truncated to 0. Pillow refuses to resize to a
  width of 0, so \<open>resize_original_image\<close> sets no resized image and the constructor
  raises.
\<close>

theorem fitted_size_zero_width:
  "fitted_size 1 100000 = Inr (0, 600) \<and>
   ImageFrame_init example_files ''n.png'' = Inl ValueError"
  using eval_1_100000 eval_init_n by simp

text \<open>
  Both computed dimensions are positive when the width is not above 798 times the height
  and the height not above 598 times the width.
\<close>

lemma fitted_size_positive:
  assumes "0 < w" and "0 < h" and "w \<le> 798 * h" and "h \<le> 598 * w"
  shows "\<exists>w' h'. fitted_size w h = Inr (w', h') \<and> 0 < w' \<and> 0 < h'"
proof -
  from resize_dims_total [OF assms(1,2)] show ?thesis
  proof (elim disjE exE conjE)
    assume "resize_dims w h = Inr Keep"
    then show ?thesis using assms(1,2) by (simp add: fitted_size_def fit_size_def)
  next
    fix a b assume rd: "resize_dims w h = Inr (Resize a b)"
    from resize_dims_Resize(2) [OF assms(1,2) rd assms(3,4)] rd
    show ?thesis by (simp add: fitted_size_def fit_size_def)
  qed
qed

section \<open>The reference formulas\<close>

text \<open>With exact arithmetic the side that constrains is fitted to its bound.\<close>

lemma fitted_width_constrained_800:
  "0 < width \<Longrightarrow> fst (fitted_width_constrained width height) = 800"
  by (simp add: fitted_width_constrained_def width_ratio_def Let_def)

lemma fitted_height_constrained_600:
  "0 < height \<Longrightarrow> snd (fitted_height_constrained width height) = 600"
  by (simp add: fitted_height_constrained_def height_ratio_def Let_def)

text \<open>What the code computes for a size that fails the no-op test: the same formulas
  with every operation rounded to a float, equal ratios going to the height branch.\<close>

lemma fitted_size_scaled:
  assumes "0 < width" and "0 < height" and "\<not> (width < 800 \<and> height < 600)"
  shows "fitted_size width height =
     Inr (if length_distance width > height_distance height
          then (let length_resize = \<lfloor>fl (float_of_int width / length_distance width)\<rfloor>
                in (length_resize,
                    \<lfloor>fl (float_of_int length_resize / fl (of_int width / of_int height))\<rfloor>))
          else (let height_resize = \<lfloor>fl (float_of_int height / height_distance height)\<rfloor>
                in (\<lfloor>fl (float_of_int height_resize * fl (of_int width / of_int height))\<rfloor>,
                    height_resize)))"
proof -
  have h0: "height \<noteq> 0" using assms(2) by simp
  note rd = resize_dims_scaled [OF h0 assms(3)]
  show ?thesis
    by (simp add: fitted_size_def rd scale_def fit_size_def Let_def
        scale_by_length_props(1) [OF assms(1,2)] scale_by_height_props(1) [OF assms(1,2)])
qed

lemma eval_reference_872_600:
  "height_ratio 600 < width_ratio 872 \<and> fitted_width_constrained 872 600 = (800, 550)"
  by code_simp

lemma eval_reference_55_600:
  "width_ratio 55 < height_ratio 600 \<and> fitted_height_constrained 55 600 = (55, 600)"
  by code_simp

lemma eval_872_600: "fitted_size 872 600 = Inr (799, 549)" by code_simp

text \<open>
  Claim C5 does not hold of the code. The code computes with floats: at 872 x 600 the
  width constrains, \<open>872 / (872 / 800)\<close> is the float just below 800 and \<open>int\<close>
  truncates it to 799, so the computed size is 799 x 549 where the reference formulas
  give 800 x 550; at 55 x 600 the height constrains and the computed size is 54 x 600
  where the formulas give 55 x 600. The comment in the source says that the side which
  deviates most from its maximum is reduced to that size.
\<close>

theorem fitted_size_misses_reference_formulas:
  "height_ratio 600 < width_ratio 872 \<and>
   fitted_width_constrained 872 600 = (800, 550) \<and>
   fitted_size 872 600 = Inr (799, 549) \<and>
   width_ratio 55 < height_ratio 600 \<and>
   fitted_height_constrained 55 600 = (55, 600) \<and>
   fitted_size 55 600 = Inr (54, 600)"
  using eval_reference_872_600 eval_reference_55_600 eval_872_600 eval_55_600 by simp

section \<open>The preview after an operation\<close>

text \<open>The inequality that defines \<open>aspect_within_one_pixel\<close> says what its name says.\<close>

lemma aspect_within_one_pixel_iff:
  fixes w h w' h' :: int
  assumes "0 < w" and "0 < h"
  shows "aspect_within_one_pixel (w, h) (w', h') \<longleftrightarrow>
         (\<exists>x y :: rat. x * of_int h = y * of_int w \<and>
            \<bar>of_int w' - x\<bar> \<le> 1 \<and> \<bar>of_int h' - y\<bar> \<le> 1)"
proof
  assume "aspect_within_one_pixel (w, h) (w', h')"
  then have "\<bar>w' * h - h' * w\<bar> \<le> w + h" by (simp add: aspect_within_one_pixel_def)
  then have "(of_int \<bar>w' * h - h' * w\<bar> :: rat) \<le> of_int (w + h)"
    by (simp only: of_int_le_iff)
  then have D: "\<bar>(of_int w' :: rat) * of_int h - of_int h' * of_int w\<bar> \<le> of_int w + of_int h"
    by simp
  define s :: rat where "s = of_int w + of_int h"
  define t :: rat where "t = (of_int w' * of_int h - of_int h' * of_int w) / s"
  have s: "0 < s" using assms by (simp add: s_def)
  have ts: "t * s = of_int w' * of_int h - of_int h' * of_int w" using s by (simp add: t_def)
  have t: "\<bar>t\<bar> \<le> 1"
  proof -
    have "\<bar>t\<bar> = \<bar>of_int w' * of_int h - of_int h' * of_int w\<bar> / s"
      using s by (simp add: t_def)
    also have "\<dots> \<le> s / s"
      using D s unfolding s_def [symmetric] by (intro divide_right_mono) simp_all
    finally show ?thesis using s by simp
  qed
  have "(of_int w' - t) * of_int h = (of_int h' + t) * of_int w"
  proof -
    have "(of_int w' - t) * of_int h - (of_int h' + t) * of_int w =
        (of_int w' * of_int h - of_int h' * of_int w) - t * s"
      by (simp add: s_def algebra_simps)
    then show ?thesis using ts by simp
  qed
  moreover have "\<bar>of_int w' - (of_int w' - t)\<bar> \<le> 1" "\<bar>of_int h' - (of_int h' + t)\<bar> \<le> 1"
    using t by simp_all
  ultimately show "\<exists>x y :: rat. x * of_int h = y * of_int w \<and>
      \<bar>of_int w' - x\<bar> \<le> 1 \<and> \<bar>of_int h' - y\<bar> \<le> 1" by blast
next
  assume "\<exists>x y :: rat. x * of_int h = y * of_int w \<and>
      \<bar>of_int w' - x\<bar> \<le> 1 \<and> \<bar>of_int h' - y\<bar> \<le> 1"
  then obtain x y :: rat where xy: "x * of_int h = y * of_int w"
    and x: "\<bar>of_int w' - x\<bar> \<le> 1" and y: "\<bar>of_int h' - y\<bar> \<le> 1" by blast
  have W: "(0::rat) \<le> of_int w" and H: "(0::rat) \<le> of_int h" using assms by simp_all
  have "(of_int w' :: rat) * of_int h - of_int h' * of_int w =
      (of_int w' - x) * of_int h - (of_int h' - y) * of_int w"
    using xy by (simp add: algebra_simps)
  also have "\<bar>\<dots>\<bar> \<le> \<bar>(of_int w' - x) * of_int h\<bar> + \<bar>(of_int h' - y) * of_int w\<bar>"
    by (rule abs_triangle_ineq4)
  also have "\<dots> = \<bar>of_int w' - x\<bar> * of_int h + \<bar>of_int h' - y\<bar> * of_int w"
    using W H by (simp add: abs_mult)
  also have "\<dots> \<le> 1 * of_int h + 1 * of_int w"
    using x y W H by (intro add_mono mult_right_mono)
  finally have "\<bar>(of_int w' :: rat) * of_int h - of_int h' * of_int w\<bar> \<le> of_int (w + h)"
    by simp
  then have "\<bar>w' * h - h' * w\<bar> \<le> w + h" by (rule of_int_abs_bound)
  then show "aspect_within_one_pixel (w, h) (w', h')"
    by (simp add: aspect_within_one_pixel_def)
qed

lemma resize_original_image_consistent:
  assumes pos: "positive_size (original_image self)"
    and res: "resize_original_image self = (None, self')"
  shows "\<exists>p. self' = self\<lparr>resized_image := Some p\<rparr> \<and>
           (p = original_image self \<or> pil_resize (original_image self) (im_size p) = Inr p) \<and>
           fitted_size (fst (im_size (original_image self))) (snd (im_size (original_image self))) =
             Inr (im_size p) \<and>
           aspect_within_one_pixel (im_size (original_image self)) (im_size p)"
proof -
  define l where "l = fst (im_size (original_image self))"
  define h where "h = snd (im_size (original_image self))"
  have sz: "im_size (original_image self) = (l, h)" by (simp add: l_def h_def)
  have lh: "0 < l" "0 < h" using pos by (simp_all add: positive_size_def l_def h_def)
  show ?thesis
  proof (cases "resize_dims l h")
    case (Inl e)
    with res show ?thesis by (simp add: resize_original_image_def l_def h_def)
  next
    case (Inr f)
    show ?thesis
    proof (cases f)
      case Keep
      with Inr res have "self' = self\<lparr>resized_image := Some (original_image self)\<rparr>"
        by (simp add: resize_original_image_def l_def h_def)
      moreover have "fitted_size l h = Inr (im_size (original_image self))"
        using Inr Keep by (simp add: fitted_size_def fit_size_def sz)
      moreover have "aspect_within_one_pixel (im_size (original_image self))
          (im_size (original_image self))"
        using lh by (simp add: aspect_within_one_pixel_def sz mult.commute)
      ultimately show ?thesis unfolding l_def h_def by blast
    next
      case (Resize a b)
      define p where "p = single_frame (a, b) (im_mode (original_image self))
          (Resampled (im_data (original_image self)) a b)"
      have rd: "resize_dims l h = Inr (Resize a b)" using Inr Resize by simp
      have ok: "\<not> (a < 1 \<or> b < 1)" and self': "self' = self\<lparr>resized_image := Some p\<rparr>"
        using res rd
        by (auto simp: resize_original_image_def l_def h_def pil_resize_def p_def
            split: if_splits)
      have psz: "im_size p = (a, b)" by (simp add: p_def single_frame_def)
      have "pil_resize (original_image self) (im_size p) = Inr p"
        using ok by (simp add: pil_resize_def psz) (simp add: p_def)
      moreover have "fitted_size l h = Inr (im_size p)"
        using rd by (simp add: fitted_size_def fit_size_def psz)
      moreover have "aspect_within_one_pixel (im_size (original_image self)) (im_size p)"
        using resize_dims_Resize(1) [OF lh rd]
        by (simp add: aspect_within_one_pixel_def sz psz)
      ultimately show ?thesis using self' unfolding l_def h_def by blast
    qed
  qed
qed

lemma apply_image_edit_consistent:
  assumes pos: "positive_size (original_image self)"
    and res: "apply_image_edit self = (None, self')"
  shows "preview_consistent self' \<and> original_image self' = original_image self"
proof -
  obtain r s where rs: "resize_original_image self = (r, s)"
    by (cases "resize_original_image self")
  with res have r: "r = None" and self': "self' = s\<lparr>display_image := resized_image s\<rparr>"
    by (auto simp: apply_image_edit_def split: option.splits)
  from resize_original_image_consistent [OF pos rs [unfolded r]]
  obtain p where p: "s = self\<lparr>resized_image := Some p\<rparr>"
    "p = original_image self \<or> pil_resize (original_image self) (im_size p) = Inr p"
    "fitted_size (fst (im_size (original_image self))) (snd (im_size (original_image self))) =
       Inr (im_size p)"
    "aspect_within_one_pixel (im_size (original_image self)) (im_size p)"
    by blast
  show ?thesis
    using p(2,3,4) by (simp add: self' p(1) preview_consistent_def)
qed

text \<open>
  After the constructor, \<open>rotate\<close> or \<open>flip\<close> has returned without an exception, for
  an original image of positive size, the preview is consistent with the original image
  as it is then.
\<close>

lemma preview_consistent_after_return:
  "(ImageFrame_init files path = Inr self \<and> positive_size (original_image self) \<longrightarrow>
      preview_consistent self) \<and>
   (rotate_frame self = (None, self') \<and> positive_size (original_image self) \<longrightarrow>
      preview_consistent self' \<and>
      original_image self' = pil_rotate_90_expand (original_image self)) \<and>
   (flip self = (None, self') \<and> positive_size (original_image self) \<longrightarrow>
      preview_consistent self' \<and> original_image self' = pil_mirror (original_image self))"
proof (intro conjI impI; elim conjE)
  assume init: "ImageFrame_init files path = Inr self"
    and pos: "positive_size (original_image self)"
  from init obtain im where im: "files path = Inr im"
    by (cases "files path") (simp_all add: ImageFrame_init_def)
  let ?f0 = "\<lparr>original_image = im, resized_image = None, display_image = None\<rparr>"
  obtain r s where rs: "resize_original_image ?f0 = (r, s)"
    by (cases "resize_original_image ?f0")
  with init im have r: "r = None" and self: "self = s\<lparr>display_image := resized_image s\<rparr>"
    by (auto simp: ImageFrame_init_def split: option.splits)
  have "apply_image_edit ?f0 = (None, self)"
    by (simp add: apply_image_edit_def rs r self)
  moreover have "original_image self = im"
    using resize_original_image_original [of ?f0] by (simp add: rs self)
  ultimately show "preview_consistent self"
    using apply_image_edit_consistent [of ?f0 self] pos by simp
next
  assume rot: "rotate_frame self = (None, self')"
    and pos: "positive_size (original_image self)"
  have "positive_size (pil_rotate_90_expand (original_image self))"
    using pos by (simp add: positive_size_def pil_rotate_90_expand_def single_frame_def)
  with rot apply_image_edit_consistent
    [of "self\<lparr>original_image := pil_rotate_90_expand (original_image self)\<rparr>" self']
  show "preview_consistent self'"
    and "original_image self' = pil_rotate_90_expand (original_image self)"
    by (simp_all add: rotate_frame_def)
next
  assume fl: "flip self = (None, self')"
    and pos: "positive_size (original_image self)"
  have "positive_size (pil_mirror (original_image self))"
    using pos by (simp add: positive_size_def pil_mirror_def single_frame_def)
  with fl apply_image_edit_consistent
    [of "self\<lparr>original_image := pil_mirror (original_image self)\<rparr>" self']
  show "preview_consistent self'"
    and "original_image self' = pil_mirror (original_image self)"
    by (simp_all add: flip_def)
qed

lemma eval_init_w:
  "ImageFrame_init example_files ''w.png'' =
     Inr (example_frame (example_image ''w.png'' 1400 2)
            (single_frame (800, 1) ''RGB'' (Resampled (Decoded ''w.png'') 800 1)))"
  by code_simp

lemma eval_consistent_w:
  "preview_consistent (example_frame (example_image ''w.png'' 1400 2)
     (single_frame (800, 1) ''RGB'' (Resampled (Decoded ''w.png'') 800 1)))"
  by code_simp

lemma eval_rotate_w:
  "rotate_frame (example_frame (example_image ''w.png'' 1400 2)
     (single_frame (800, 1) ''RGB'' (Resampled (Decoded ''w.png'') 800 1))) =
   (Some ValueError,
    example_frame (single_frame (2, 1400) ''RGB'' (Rotated90 (Decoded ''w.png'')))
      (single_frame (800, 1) ''RGB'' (Resampled (Decoded ''w.png'') 800 1)))"
  by code_simp

lemma eval_stale_w:
  "\<not> preview_consistent
     (example_frame (single_frame (2, 1400) ''RGB'' (Rotated90 (Decoded ''w.png'')))
        (single_frame (800, 1) ''RGB'' (Resampled (Decoded ''w.png'') 800 1)))"
  by code_simp

text \<open>
  Claim C6 does not hold of the code. \<open>rotate\<close> assigns the rotated image before it
  rebuilds the preview. The constructor gives a 1400 x 2 image a consistent 800 x 1
  preview; \<open>rotate\<close> then makes the original 2 x 1400, the fitted size of that is
  0 x 600, Pillow refuses it, and the exception leaves the frame with the rotated
  original and with the preview of the image before the rotation, which is not
  consistent with it. The docstring of the class says that all changes to the original
  image must be applied to the resized image and to the display image.
\<close>

theorem rotate_leaves_stale_preview:
  "ImageFrame_init example_files ''w.png'' =
     Inr (example_frame (example_image ''w.png'' 1400 2)
            (single_frame (800, 1) ''RGB'' (Resampled (Decoded ''w.png'') 800 1))) \<and>
   preview_consistent (example_frame (example_image ''w.png'' 1400 2)
     (single_frame (800, 1) ''RGB'' (Resampled (Decoded ''w.png'') 800 1))) \<and>
   rotate_frame (example_frame (example_image ''w.png'' 1400 2)
     (single_frame (800, 1) ''RGB'' (Resampled (Decoded ''w.png'') 800 1))) =
   (Some ValueError,
    example_frame (single_frame (2, 1400) ''RGB'' (Rotated90 (Decoded ''w.png'')))
      (single_frame (800, 1) ''RGB'' (Resampled (Decoded ''w.png'') 800 1))) \<and>
   \<not> preview_consistent
     (example_frame (single_frame (2, 1400) ''RGB'' (Rotated90 (Decoded ''w.png'')))
        (single_frame (800, 1) ''RGB'' (Resampled (Decoded ''w.png'') 800 1)))"
  using eval_init_w eval_consistent_w eval_rotate_w eval_stale_w by simp

end
